theory Spec2Isabelle
  imports Main "HOL-Library.Word"
begin

unbundle bit_operations_syntax

section \<open>Values of the program\<close>

text \<open>
  The module under verification is \<^verbatim>\<open>backend/src/utils/mfa/verifyTotpOrSecretKey.ts\<close>.
  A Node \<^verbatim>\<open>Buffer\<close> is a list of bytes. A JavaScript string is a list of UTF-16 code
  units, which is what \<^verbatim>\<open>.length\<close> counts. A JavaScript \<^verbatim>\<open>number\<close> that holds an integer
  is an \<open>int\<close>; the 32-bit conversions of the bitwise operators are written out.
\<close>

type_synonym byte = "8 word"
type_synonym Buffer = "byte list"
type_synonym jsstring = "16 word list"

datatype error = DecodeError | ERR_CRYPTO_TIMING_SAFE_EQUAL_LENGTH

text \<open>
  \<^verbatim>\<open>AUTH_APP_PARAMS\<close> is imported from \<^verbatim>\<open>../../variables\<close>; its values are a parameter
  of the model. The hash algorithm is a name handed to \<^verbatim>\<open>createHmac\<close>.
\<close>

record AuthAppParams =
  totp_length :: nat
  totp_period :: int
  totp_hash_algorithm :: string

text \<open>
  What the module takes from outside: the configuration, the base32 decoder of
  \<^verbatim>\<open>./base32EncodeAndDecode\<close>, Node's \<^verbatim>\<open>createHmac(alg, key).update(msg).digest()\<close>,
  Node's \<^verbatim>\<open>Buffer.from(s, "base64")\<close> and the clock \<^verbatim>\<open>Date.now()\<close>. A decoder that
  throws returns \<open>None\<close>. The base64 call stands inside a \<^verbatim>\<open>try\<close> in the source, so the
  model lets it throw as well, although Node's decoder never throws on a string.
\<close>

record externals =
  AUTH_APP_PARAMS :: AuthAppParams
  customBase32Decode :: "jsstring \<Rightarrow> Buffer option"
  createHmac :: "string \<Rightarrow> Buffer \<Rightarrow> Buffer \<Rightarrow> Buffer"
  Buffer_from_base64 :: "jsstring \<Rightarrow> Buffer option"
  Date_now :: int

section \<open>JavaScript primitives used by the module\<close>

text \<open>\<^verbatim>\<open>ToInt32\<close> of an integer-valued number: reduction modulo \<open>2^32\<close>.\<close>

definition ToInt32 :: "int \<Rightarrow> 32 word" where
  "ToInt32 n = word_of_int n"

text \<open>
  \<^verbatim>\<open>buf[i]\<close> on a Buffer: the byte, or \<^verbatim>\<open>undefined\<close> (here \<open>None\<close>) outside the
  bounds; the read never throws.
\<close>

definition Buffer_get :: "Buffer \<Rightarrow> int \<Rightarrow> byte option" where
  "Buffer_get buf i = (if 0 \<le> i \<and> i < int (length buf) then Some (buf ! nat i) else None)"

text \<open>A bitwise operator applied to such a read: \<^verbatim>\<open>undefined\<close> converts to 0.\<close>

fun ToInt32_read :: "byte option \<Rightarrow> 32 word" where
  "ToInt32_read None = 0"
| "ToInt32_read (Some b) = ucast b"

text \<open>\<^verbatim>\<open>a % b\<close> on integers: the remainder takes the sign of the dividend.\<close>

definition js_rem :: "int \<Rightarrow> int \<Rightarrow> int" where
  "js_rem a b = (if a < 0 then - ((- a) mod \<bar>b\<bar>) else a mod \<bar>b\<bar>)"

definition digit_unit :: "nat \<Rightarrow> 16 word" where
  "digit_unit d = of_nat (48 + d)"

fun nat_toString :: "nat \<Rightarrow> jsstring" where
  "nat_toString n =
     (if n < 10 then [digit_unit n] else nat_toString (n div 10) @ [digit_unit (n mod 10)])"

declare nat_toString.simps [simp del]

text \<open>The template literal \<^verbatim>\<open>`${n}`\<close> of an integer below \<open>10^21\<close> in size.\<close>

definition number_toString :: "int \<Rightarrow> jsstring" where
  "number_toString n = (if n < 0 then 45 # nat_toString (nat (- n)) else nat_toString (nat n))"

text \<open>\<^verbatim>\<open>s.padStart(n, "0")\<close>.\<close>

definition padStart0 :: "jsstring \<Rightarrow> nat \<Rightarrow> jsstring" where
  "padStart0 s n = (if n \<le> length s then s else replicate (n - length s) 48 @ s)"

section \<open>generateHotp\<close>

text \<open>
  The loop that fills the 8-byte message:
  \<^verbatim>\<open>for (let i = 0; i < 8; i++) { buffer[7 - i] = counter & 0xff; counter = counter >> 8; }\<close>
  Both operators convert \<^verbatim>\<open>counter\<close> with \<^verbatim>\<open>ToInt32\<close>; \<^verbatim>\<open>>>\<close> is the sign-propagating
  shift, and its result is again a number.
\<close>

function counterLoop :: "nat \<Rightarrow> Buffer \<Rightarrow> int \<Rightarrow> Buffer" where
  "counterLoop i buffer counter =
     (if i < 8
      then counterLoop (i + 1)
             (buffer[7 - i := ucast (ToInt32 counter AND 0xff)])
             (sint (signed_drop_bit 8 (ToInt32 counter)))
      else buffer)"
  by pat_completeness auto
termination
  by (relation "measure (\<lambda>(i, buffer, counter). 8 - i)") auto

declare counterLoop.simps [simp del]

definition counterBuffer :: "int \<Rightarrow> Buffer" where
  "counterBuffer counter = counterLoop 0 (replicate 8 0) counter"

text \<open>\<^verbatim>\<open>const offset = hmacResult[hmacResult.length - 1] & 0xf\<close>\<close>

definition truncationOffset :: "Buffer \<Rightarrow> int" where
  "truncationOffset hmacResult =
     sint (ToInt32_read (Buffer_get hmacResult (int (length hmacResult) - 1)) AND 0xf)"

text \<open>The four reads and the 32-bit combination that give \<^verbatim>\<open>code\<close>.\<close>

definition truncatedCode :: "Buffer \<Rightarrow> int" where
  "truncatedCode hmacResult =
     (let offset = truncationOffset hmacResult
      in sint (push_bit 24 (ToInt32_read (Buffer_get hmacResult offset) AND 0x7f)
            OR push_bit 16 (ToInt32_read (Buffer_get hmacResult (offset + 1)) AND 0xff)
            OR push_bit 8 (ToInt32_read (Buffer_get hmacResult (offset + 2)) AND 0xff)
            OR (ToInt32_read (Buffer_get hmacResult (offset + 3)) AND 0xff)))"

text \<open>
  The whole function. \<^verbatim>\<open>createHmac\<close> is taken for an algorithm name the runtime knows, so
  it returns a digest. \<^verbatim>\<open>10 ** totp_length\<close> is a double: up to length 22 it is the exact
  power, and beyond it is some number above every 31-bit code, so the remainder is the
  code itself there as it is with the exact power.
\<close>

definition generateHotp :: "externals \<Rightarrow> Buffer \<Rightarrow> int \<Rightarrow> jsstring" where
  "generateHotp ext secretKeyBuffer counter =
     (let buffer = counterBuffer counter;
          hmacResult = createHmac ext (totp_hash_algorithm (AUTH_APP_PARAMS ext)) secretKeyBuffer buffer;
          code = truncatedCode hmacResult
      in padStart0 (number_toString (js_rem code (10 ^ totp_length (AUTH_APP_PARAMS ext))))
           (totp_length (AUTH_APP_PARAMS ext)))"

text \<open>
  The number the function renders: the value of \<^verbatim>\<open>code % 10 ** totp_length\<close> as the code
  computes it, from its own message and its own truncation.
\<close>

definition truncatedModulo :: "externals \<Rightarrow> Buffer \<Rightarrow> int \<Rightarrow> nat" where
  "truncatedModulo ext secretKeyBuffer counter =
     nat (truncatedCode (createHmac ext (totp_hash_algorithm (AUTH_APP_PARAMS ext))
            secretKeyBuffer (counterBuffer counter)))
       mod 10 ^ totp_length (AUTH_APP_PARAMS ext)"

section \<open>Buffer.from on a string\<close>

text \<open>
  \<^verbatim>\<open>Buffer.from(s)\<close> encodes the string as UTF-8. A code unit below \<open>0x80\<close> is one byte,
  one below \<open>0x800\<close> two bytes, a surrogate pair four bytes, any other unit three bytes;
  a surrogate without its partner is encoded as U+FFFD (\<open>EF BF BD\<close>).
\<close>

definition isHighSurrogate :: "16 word \<Rightarrow> bool" where
  "isHighSurrogate u = (0xD800 \<le> u \<and> u < 0xDC00)"

definition isLowSurrogate :: "16 word \<Rightarrow> bool" where
  "isLowSurrogate u = (0xDC00 \<le> u \<and> u < 0xE000)"

definition replacementBytes :: Buffer where
  "replacementBytes = [0xEF, 0xBF, 0xBD]"

definition pairCodePoint :: "16 word \<Rightarrow> 16 word \<Rightarrow> 32 word" where
  "pairCodePoint u v = 0x10000 + push_bit 10 (ucast (u - 0xD800)) + ucast (v - 0xDC00)"

definition utf8Bytes2 :: "16 word \<Rightarrow> Buffer" where
  "utf8Bytes2 u = [0xC0 OR ucast (drop_bit 6 u), 0x80 OR ucast (u AND 0x3F)]"

definition utf8Bytes3 :: "16 word \<Rightarrow> Buffer" where
  "utf8Bytes3 u =
     [0xE0 OR ucast (drop_bit 12 u), 0x80 OR ucast (drop_bit 6 u AND 0x3F), 0x80 OR ucast (u AND 0x3F)]"

definition utf8Bytes4 :: "32 word \<Rightarrow> Buffer" where
  "utf8Bytes4 cp =
     [0xF0 OR ucast (drop_bit 18 cp), 0x80 OR ucast (drop_bit 12 cp AND 0x3F),
      0x80 OR ucast (drop_bit 6 cp AND 0x3F), 0x80 OR ucast (cp AND 0x3F)]"

fun Buffer_from :: "jsstring \<Rightarrow> Buffer" where
  "Buffer_from [] = []"
| "Buffer_from [u] =
     (if u < 0x80 then [ucast u]
      else if u < 0x800 then utf8Bytes2 u
      else if isHighSurrogate u \<or> isLowSurrogate u then replacementBytes
      else utf8Bytes3 u)"
| "Buffer_from (u # v # vs) =
     (if u < 0x80 then ucast u # Buffer_from (v # vs)
      else if u < 0x800 then utf8Bytes2 u @ Buffer_from (v # vs)
      else if isHighSurrogate u \<and> isLowSurrogate v then utf8Bytes4 (pairCodePoint u v) @ Buffer_from vs
      else if isHighSurrogate u \<or> isLowSurrogate u then replacementBytes @ Buffer_from (v # vs)
      else utf8Bytes3 u @ Buffer_from (v # vs))"

section \<open>crypto.timingSafeEqual\<close>

text \<open>
  Node's \<^verbatim>\<open>timingSafeEqual(a, b)\<close> throws when the two buffers differ in length and
  otherwise says whether they hold the same bytes. To state which comparisons a
  verification performs, every function that can reach the primitive threads the list of
  its invocations so far, oldest first.
\<close>

type_synonym comparisons = "(Buffer \<times> Buffer) list"

definition timingSafeEqual :: "Buffer \<Rightarrow> Buffer \<Rightarrow> comparisons \<Rightarrow> (error + bool) \<times> comparisons" where
  "timingSafeEqual a b calls =
     (if length a \<noteq> length b then Inl ERR_CRYPTO_TIMING_SAFE_EQUAL_LENGTH else Inr (a = b),
      calls @ [(a, b)])"

text \<open>The guarded form \<^verbatim>\<open>a.length === b.length && timingSafeEqual(a, b)\<close> of the drift loop.\<close>

definition lengthAndTimingSafeEqual ::
    "Buffer \<Rightarrow> Buffer \<Rightarrow> comparisons \<Rightarrow> (error + bool) \<times> comparisons" where
  "lengthAndTimingSafeEqual a b calls =
     (if length a = length b then timingSafeEqual a b calls else (Inr False, calls))"

section \<open>generateTotp and verifyTotp\<close>

definition generateTotp :: "externals \<Rightarrow> jsstring \<Rightarrow> int \<Rightarrow> error + jsstring" where
  "generateTotp ext dbSecretKey counter =
     (case customBase32Decode ext dbSecretKey of
        None \<Rightarrow> Inl DecodeError
      | Some secretKeyBuffer \<Rightarrow> Inr (generateHotp ext secretKeyBuffer counter))"

record TotpVerificationInput =
  userTotp :: jsstring
  dbSecretKey :: jsstring

text \<open>
  \<^verbatim>\<open>Math.floor(Date.now() / AUTH_APP_PARAMS.totp_period)\<close>. For a positive integer period
  and a clock reading below \<open>2^53\<close> the floored quotient of the two doubles is the
  integer quotient.
\<close>

definition currentCounter :: "externals \<Rightarrow> int" where
  "currentCounter ext = Date_now ext div totp_period (AUTH_APP_PARAMS ext)"

text \<open>
  The drift loop \<^verbatim>\<open>for (let errorWindow = 1; errorWindow <= window; errorWindow++)\<close>.
  An exception of \<^verbatim>\<open>generateTotp\<close> or of the primitive leaves the loop as \<open>Inl\<close>.
\<close>

function verifyLoop ::
    "externals \<Rightarrow> Buffer \<Rightarrow> jsstring \<Rightarrow> int \<Rightarrow> int \<Rightarrow> int \<Rightarrow> comparisons
     \<Rightarrow> (error + bool) \<times> comparisons" where
  "verifyLoop ext userTotpBuffer secret counter window errorWindow calls =
     (if errorWindow \<le> window then
        (case generateTotp ext secret (counter - errorWindow) of
           Inl e \<Rightarrow> (Inl e, calls)
         | Inr serverTotpPrev \<Rightarrow>
             (case generateTotp ext secret (counter + errorWindow) of
                Inl e \<Rightarrow> (Inl e, calls)
              | Inr serverTotpNext \<Rightarrow>
                  (case lengthAndTimingSafeEqual userTotpBuffer (Buffer_from serverTotpPrev) calls of
                     (Inl e, calls1) \<Rightarrow> (Inl e, calls1)
                   | (Inr True, calls1) \<Rightarrow> (Inr True, calls1)
                   | (Inr False, calls1) \<Rightarrow>
                       (case lengthAndTimingSafeEqual userTotpBuffer (Buffer_from serverTotpNext) calls1 of
                          (Inl e, calls2) \<Rightarrow> (Inl e, calls2)
                        | (Inr True, calls2) \<Rightarrow> (Inr True, calls2)
                        | (Inr False, calls2) \<Rightarrow>
                            verifyLoop ext userTotpBuffer secret counter window (errorWindow + 1) calls2))))
      else (Inr False, calls))"
  by pat_completeness auto
termination
  by (relation "measure (\<lambda>(ext, userTotpBuffer, secret, counter, window, errorWindow, calls).
        nat (window + 1 - errorWindow))") auto

declare verifyLoop.simps [simp del]

definition verifyTotp ::
    "externals \<Rightarrow> TotpVerificationInput \<Rightarrow> comparisons \<Rightarrow> (error + bool) \<times> comparisons" where
  "verifyTotp ext input calls =
     (let window = 1 in
      case generateTotp ext (dbSecretKey input) (currentCounter ext) of
        Inl e \<Rightarrow> (Inl e, calls)
      | Inr serverTotpCurr \<Rightarrow>
          (let userTotpBuffer = Buffer_from (userTotp input);
               serverTotpBuffer = Buffer_from serverTotpCurr
           in if length userTotpBuffer \<noteq> length serverTotpBuffer then (Inr False, calls)
              else (case timingSafeEqual userTotpBuffer serverTotpBuffer calls of
                      (Inl e, calls1) \<Rightarrow> (Inl e, calls1)
                    | (Inr True, calls1) \<Rightarrow> (Inr True, calls1)
                    | (Inr False, calls1) \<Rightarrow>
                        verifyLoop ext userTotpBuffer (dbSecretKey input) (currentCounter ext)
                          window 1 calls1)))"

section \<open>verifySecretKey\<close>

text \<open>The body of the \<^verbatim>\<open>try\<close> block.\<close>

definition verifySecretKey_try ::
    "externals \<Rightarrow> jsstring \<Rightarrow> jsstring \<Rightarrow> comparisons \<Rightarrow> (error + bool) \<times> comparisons" where
  "verifySecretKey_try ext userSecretKey secret calls =
     (case Buffer_from_base64 ext userSecretKey of
        None \<Rightarrow> (Inl DecodeError, calls)
      | Some userSecretKeyBuffer \<Rightarrow>
          (case Buffer_from_base64 ext secret of
             None \<Rightarrow> (Inl DecodeError, calls)
           | Some dbSecretKeyBuffer \<Rightarrow>
               if length userSecretKeyBuffer \<noteq> length dbSecretKeyBuffer then (Inr False, calls)
               else timingSafeEqual userSecretKeyBuffer dbSecretKeyBuffer calls))"

text \<open>\<^verbatim>\<open>catch (err) { return false; }\<close>\<close>

definition verifySecretKey ::
    "externals \<Rightarrow> jsstring \<Rightarrow> jsstring \<Rightarrow> comparisons \<Rightarrow> (error + bool) \<times> comparisons" where
  "verifySecretKey ext userSecretKey secret calls =
     (case verifySecretKey_try ext userSecretKey secret calls of
        (Inl err, calls1) \<Rightarrow> (Inr False, calls1)
      | (Inr isEqual, calls1) \<Rightarrow> (Inr isEqual, calls1))"

section \<open>The words of the specification\<close>

text \<open>
  The specification's serialisation of the counter: byte \<open>i\<close> of the message is
  \<open>floor(counter / 256^(7-i)) mod 256\<close>.
\<close>

definition bigEndian8 :: "int \<Rightarrow> Buffer" where
  "bigEndian8 counter = map (\<lambda>i. word_of_int (counter div 256 ^ (7 - i) mod 256)) [0..<8]"

text \<open>
  The specification's dynamic truncation: ``let \<^verbatim>\<open>offset = hmac_output[last_byte] & 0x0F\<close>.
  Read a 4-byte big-endian value starting at \<^verbatim>\<open>hmac_output[offset]\<close>, masking the most
  significant bit of the first byte (\<^verbatim>\<open>& 0x7F\<close>)''. It is stated for digests that hold the
  four bytes, which every digest of 20 bytes or more does.
\<close>

definition dynamicTruncation :: "Buffer \<Rightarrow> nat" where
  "dynamicTruncation hmac_output =
     (let offset = unat (last hmac_output AND 0x0F)
      in unat (hmac_output ! offset AND 0x7F) * 256 ^ 3
         + unat (hmac_output ! (offset + 1)) * 256 ^ 2
         + unat (hmac_output ! (offset + 2)) * 256
         + unat (hmac_output ! (offset + 3)))"

text \<open>
  The specification's HOTP value of a secret and a counter: the counter as 8 big-endian
  bytes, the keyed hash over them, the dynamic truncation, modulo \<open>10^code_length\<close>.
\<close>

definition hotpValue :: "externals \<Rightarrow> Buffer \<Rightarrow> int \<Rightarrow> nat" where
  "hotpValue ext secret counter =
     dynamicTruncation (createHmac ext (totp_hash_algorithm (AUTH_APP_PARAMS ext))
        secret (bigEndian8 counter))
       mod 10 ^ totp_length (AUTH_APP_PARAMS ext)"

text \<open>
  Well-formed base64 text (RFC 4648, section 4): characters of the alphabet, then at most
  two \<^verbatim>\<open>'='\<close> of padding, in all a multiple of four characters.
\<close>

definition isBase64Char :: "16 word \<Rightarrow> bool" where
  "isBase64Char u =
     (65 \<le> unat u \<and> unat u \<le> 90 \<or> 97 \<le> unat u \<and> unat u \<le> 122
      \<or> 48 \<le> unat u \<and> unat u \<le> 57 \<or> unat u = 43 \<or> unat u = 47)"

definition wellFormedBase64 :: "jsstring \<Rightarrow> bool" where
  "wellFormedBase64 s =
     (length s mod 4 = 0
      \<and> list_all isBase64Char (takeWhile (\<lambda>u. u \<noteq> 61) s)
      \<and> length (dropWhile (\<lambda>u. u \<noteq> 61) s) \<le> 2
      \<and> list_all (\<lambda>u. u = 61) (dropWhile (\<lambda>u. u \<noteq> 61) s))"

text \<open>A decimal digit, and the number a string of decimal digits denotes.\<close>

definition isDecimalDigit :: "16 word \<Rightarrow> bool" where
  "isDecimalDigit u = (48 \<le> unat u \<and> unat u \<le> 57)"

definition decimalValue :: "jsstring \<Rightarrow> nat" where
  "decimalValue s = foldl (\<lambda>v u. 10 * v + (unat u - 48)) 0 s"

section \<open>An instance of the externals\<close>

text \<open>
  Modelled from the spec: the decoder \<^verbatim>\<open>customBase32Decode\<close> of
  \<^verbatim>\<open>./base32EncodeAndDecode\<close> is not among the sources. The specification says of it:
  ``\<^verbatim>\<open>decode_base32(text: string) -> byte_sequence\<close>, fails with a decode error on invalid
  characters or padding''. The instance below is the strict decoder of the RFC 4648
  base32 alphabet without padding. The keyed digest is a small stand-in of 32 bytes for
  HMAC, which the theorems never look into. The instance is used in closed examples only;
  every general theorem holds for all externals.
\<close>

definition base32Digit :: "16 word \<Rightarrow> nat option" where
  "base32Digit u =
     (if 65 \<le> unat u \<and> unat u \<le> 90 then Some (unat u - 65)
      else if 50 \<le> unat u \<and> unat u \<le> 55 then Some (unat u - 24)
      else None)"

fun regroupBits :: "nat \<Rightarrow> nat \<Rightarrow> nat \<Rightarrow> nat list \<Rightarrow> Buffer" where
  "regroupBits w bits acc [] = []"
| "regroupBits w bits acc (v # vs) =
     (if 8 \<le> bits + w
      then of_nat ((acc * 2 ^ w + v) div 2 ^ (bits + w - 8))
             # regroupBits w (bits + w - 8) ((acc * 2 ^ w + v) mod 2 ^ (bits + w - 8)) vs
      else regroupBits w (bits + w) (acc * 2 ^ w + v) vs)"

definition strictDecode :: "(16 word \<Rightarrow> nat option) \<Rightarrow> nat \<Rightarrow> jsstring \<Rightarrow> Buffer option" where
  "strictDecode digit w s = map_option (regroupBits w 0 0) (those (map digit s))"

text \<open>
  Node's \<^verbatim>\<open>Buffer.from(s, "base64")\<close> does not throw on a string. It takes the characters of
  the base64 and of the base64url alphabet, passes over every other character, stops at
  the first \<^verbatim>\<open>'='\<close>, and drops trailing bits that do not fill a byte.
\<close>

definition nodeBase64Digit :: "16 word \<Rightarrow> nat option" where
  "nodeBase64Digit u =
     (if 65 \<le> unat u \<and> unat u \<le> 90 then Some (unat u - 65)
      else if 97 \<le> unat u \<and> unat u \<le> 122 then Some (unat u - 71)
      else if 48 \<le> unat u \<and> unat u \<le> 57 then Some (unat u + 4)
      else if unat u = 43 \<or> unat u = 45 then Some 62
      else if unat u = 47 \<or> unat u = 95 then Some 63
      else None)"

definition nodeBase64Decode :: "jsstring \<Rightarrow> Buffer" where
  "nodeBase64Decode s =
     regroupBits 6 0 0 (List.map_filter nodeBase64Digit (takeWhile (\<lambda>u. u \<noteq> 61) s))"

definition exampleDigest :: "string \<Rightarrow> Buffer \<Rightarrow> Buffer \<Rightarrow> Buffer" where
  "exampleDigest alg key msg =
     map (\<lambda>i. of_nat (17 * i + 1) * (sum_list key + sum_list msg) + of_nat i) [0..<32]"

definition exampleExternals :: externals where
  "exampleExternals =
     \<lparr> AUTH_APP_PARAMS =
         \<lparr> totp_length = 6, totp_period = 30000, totp_hash_algorithm = ''sha256'' \<rparr>,
       customBase32Decode = strictDecode base32Digit 5,
       createHmac = exampleDigest,
       Buffer_from_base64 = (\<lambda>s. Some (nodeBase64Decode s)),
       Date_now = 1700000000000 \<rparr>"

text \<open>
  The strings \<^verbatim>\<open>"JBSWY3DPEHPK3PXP"\<close> and \<^verbatim>\<open>"JBSWY3DP!"\<close>, and the ten bytes the first
  one decodes to.
\<close>

definition exampleSecret :: jsstring where
  "exampleSecret = [74, 66, 83, 87, 89, 51, 68, 80, 69, 72, 80, 75, 51, 80, 88, 80]"

definition malformedSecret :: jsstring where
  "malformedSecret = [74, 66, 83, 87, 89, 51, 68, 80, 33]"

text \<open>The well-formed string with \<^verbatim>\<open>'!'\<close> put after it: \<^verbatim>\<open>"JBSWY3DPEHPK3PXP!"\<close>.\<close>

definition trailingBangSecret :: jsstring where
  "trailingBangSecret = [74, 66, 83, 87, 89, 51, 68, 80, 69, 72, 80, 75, 51, 80, 88, 80, 33]"

definition exampleKey :: Buffer where
  "exampleKey = [72, 101, 108, 108, 111, 33, 222, 173, 190, 239]"

text \<open>
  A request with the code \<^verbatim>\<open>"468267"\<close>, one with the five characters \<^verbatim>\<open>"46826"\<close>, and
  one whose stored secret does not decode.
\<close>

definition exampleInput :: TotpVerificationInput where
  "exampleInput = \<lparr> userTotp = [52, 54, 56, 50, 54, 55], dbSecretKey = exampleSecret \<rparr>"

definition shortInput :: TotpVerificationInput where
  "shortInput = \<lparr> userTotp = [52, 54, 56, 50, 54], dbSecretKey = exampleSecret \<rparr>"

definition malformedInput :: TotpVerificationInput where
  "malformedInput = \<lparr> userTotp = [52, 54, 56, 50, 54, 55], dbSecretKey = malformedSecret \<rparr>"

text \<open>
  A request whose code is three code units \<open>0xE9\<close> (e with an acute accent): three
  characters, six bytes of UTF-8.
\<close>

definition accentedInput :: TotpVerificationInput where
  "accentedInput = \<lparr> userTotp = [0xE9, 0xE9, 0xE9], dbSecretKey = exampleSecret \<rparr>"

text \<open>The 20-byte digest of the worked example in RFC 4226, section 5.4.\<close>

definition rfc4226Digest :: Buffer where
  "rfc4226Digest =
     [0x1f, 0x86, 0x98, 0x69, 0x0e, 0x02, 0xca, 0x16, 0x61, 0x85,
      0x50, 0xef, 0x7f, 0x19, 0xda, 0x8e, 0x94, 0x5b, 0x55, 0x5a]"

section \<open>Dynamic truncation\<close>

lemma sint_nonneg_iff: "0 \<le> sint (w :: 32 word) \<longleftrightarrow> \<not> bit w 31"
  using bit_last_iff [of w] by auto

lemma sint_small:
  fixes w :: "32 word"
  assumes "w \<le> 0xff"
  shows "sint w = uint w"
proof -
  have "uint w \<le> 255"
    using assms by (simp add: word_le_def)
  then have "uint w < 2 ^ 31" by simp
  moreover have "- (2 ^ 31) \<le> uint w"
    by (rule order_trans [of _ 0]) simp_all
  ultimately have "signed_take_bit 31 (uint w) = uint w"
    by (rule signed_take_bit_int_eq_self [rotated])
  then show ?thesis
    by (simp add: sint_uint)
qed

lemma truncationOffset_bounds: "0 \<le> truncationOffset h \<and> truncationOffset h \<le> 15"
proof -
  let ?w = "ToInt32_read (Buffer_get h (int (length h) - 1)) AND 0xf"
  have le: "?w \<le> 0xf" by (rule word_and_le1)
  then have "uint ?w \<le> 15" by (simp add: word_le_def)
  moreover have "?w \<le> 0xff" using le by (rule order_trans) simp
  then have "sint ?w = uint ?w" by (rule sint_small)
  ultimately show ?thesis by (simp add: truncationOffset_def)
qed

lemma truncatedCode_nonneg: "0 \<le> truncatedCode h"
  unfolding truncatedCode_def Let_def sint_nonneg_iff
  by (simp add: bit_simps)

lemma truncatedCode_less: "truncatedCode h < 2 ^ 31"
  unfolding truncatedCode_def Let_def
  using sint_lt [where 'a = 32] by simp

lemma unat_byte_less: "unat (b :: byte) < 256"
proof -
  have "unat b < 2 ^ LENGTH(8)"
    by (rule unsigned_less)
  then show ?thesis
    by simp
qed

lemma unat_push_bit_small:
  fixes w :: "32 word"
  assumes "unat w * 2 ^ n < 2 ^ 32"
  shows "unat (push_bit n w) = unat w * 2 ^ n"
proof -
  have "unat (push_bit n w) = take_bit LENGTH(32) (push_bit n (unat w))"
    by (rule unsigned_push_bit_eq)
  also have "\<dots> = take_bit 32 (unat w * 2 ^ n)"
    by (simp add: push_bit_eq_mult)
  also have "\<dots> = unat w * 2 ^ n"
    using assms by (rule take_bit_nat_eq_self)
  finally show ?thesis .
qed

lemma sint_eq_unat:
  fixes w :: "32 word"
  assumes "unat w < 2 ^ 31"
  shows "sint w = int (unat w)"
proof -
  have "int (unat w) < int (2 ^ 31)"
    using assms by (simp only: of_nat_less_iff)
  then have "uint w < 2 ^ 31"
    by simp
  moreover have "- (2 ^ 31) \<le> uint w"
    by (rule order_trans [of _ 0]) simp_all
  ultimately have "signed_take_bit 31 (uint w) = uint w"
    by (rule signed_take_bit_int_eq_self [rotated])
  then show ?thesis
    by (simp add: sint_uint)
qed

lemma numeral_masks:
  "(0xff :: 32 word) = mask 8" "(0x7f :: 32 word) = mask 7" "(0xf :: 32 word) = mask 4"
  "(0x7F :: byte) = mask 7" "(0x0F :: byte) = mask 4"
  by (simp_all add: mask_eq_exp_minus_1)

lemma unat_ucast_byte: "unat (ucast b :: 32 word) = unat b" for b :: byte
proof -
  have "unat b < 2 ^ 32"
    using unat_byte_less [of b] by simp
  then show ?thesis
    by (simp add: unsigned_ucast_eq take_bit_nat_eq_self)
qed

text \<open>A byte read through a 32-bit mask is the byte under the 8-bit mask.\<close>

lemma unat_ucast_mask:
  "unat ((ucast b :: 32 word) AND mask n) = unat (b AND mask n)" for b :: byte
proof -
  have "unat ((ucast b :: 32 word) AND mask n) = unat (take_bit n (ucast b :: 32 word))"
    by (simp only: take_bit_eq_mask)
  also have "\<dots> = take_bit n (unat (ucast b :: 32 word))"
    by (simp only: unsigned_take_bit_eq)
  also have "\<dots> = take_bit n (unat b)"
    by (simp only: unat_ucast_byte)
  also have "\<dots> = unat (take_bit n b)"
    by (simp only: unsigned_take_bit_eq)
  also have "\<dots> = unat (b AND mask n)"
    by (simp only: take_bit_eq_mask)
  finally show ?thesis .
qed

lemma unat_byte_mask8: "unat (b AND mask 8) = unat b" for b :: byte
proof -
  have "unat (b AND mask 8) = take_bit 8 (unat b)"
    by (simp only: unsigned_take_bit_eq flip: take_bit_eq_mask)
  also have "\<dots> = unat b"
    using unat_byte_less [of b] by (intro take_bit_nat_eq_self) simp
  finally show ?thesis .
qed

lemma unat_byte_mask_less: "unat (b AND mask n) < 2 ^ n" for b :: byte
proof -
  have "unat (b AND mask n) = take_bit n (unat b)"
    by (simp only: unsigned_take_bit_eq flip: take_bit_eq_mask)
  then show ?thesis
    by (simp add: take_bit_eq_mod)
qed

text \<open>
  The 32-bit combination of four reads is the big-endian number of the four bytes with the
  top bit of the first one cleared.
\<close>

lemma four_bytes_value:
  fixes b0 b1 b2 b3 :: byte
  shows "sint (push_bit 24 ((ucast b0 :: 32 word) AND 0x7f) OR push_bit 16 (ucast b1 AND 0xff)
            OR push_bit 8 (ucast b2 AND 0xff) OR (ucast b3 AND 0xff))
         = int (unat (b0 AND 0x7F) * 256 ^ 3 + unat b1 * 256 ^ 2 + unat b2 * 256 + unat b3)"
proof -
  let ?A = "push_bit 24 ((ucast b0 :: 32 word) AND mask 7)"
  let ?B = "push_bit 16 ((ucast b1 :: 32 word) AND mask 8)"
  let ?C = "push_bit 8 ((ucast b2 :: 32 word) AND mask 8)"
  let ?D = "(ucast b3 :: 32 word) AND mask 8"
  have cd: "?C OR ?D = ?C + ?D"
    by (rule disjunctive_add [symmetric]) (auto simp add: bit_simps)
  have bcd: "?B OR (?C OR ?D) = ?B + (?C OR ?D)"
    by (rule disjunctive_add [symmetric]) (auto simp add: bit_simps)
  have abcd: "?A OR (?B OR (?C OR ?D)) = ?A + (?B OR (?C OR ?D))"
    by (rule disjunctive_add [symmetric]) (auto simp add: bit_simps)
  have low: "unat ((ucast b :: 32 word) AND mask 8) = unat b" for b :: byte
    by (simp only: unat_ucast_mask unat_byte_mask8)
  have low7: "unat ((ucast b0 :: 32 word) AND mask 7) = unat (b0 AND mask 7)"
    by (rule unat_ucast_mask)
  have b0: "unat (b0 AND mask 7) < 128"
    using unat_byte_mask_less [of b0 7] by simp
  have b1: "unat b1 < 256" and b2: "unat b2 < 256" and b3: "unat b3 < 256"
    by (rule unat_byte_less)+
  have ua: "unat ?A = unat (b0 AND mask 7) * 2 ^ 24"
    using b0 by (subst unat_push_bit_small) (simp_all only: low7, simp_all)
  have ub: "unat ?B = unat b1 * 2 ^ 16"
    using b1 by (subst unat_push_bit_small) (simp_all only: low, simp_all)
  have uc: "unat ?C = unat b2 * 2 ^ 8"
    using b2 by (subst unat_push_bit_small) (simp_all only: low, simp_all)
  have ud: "unat ?D = unat b3"
    by (rule low)
  let ?N = "unat (b0 AND mask 7) * 2 ^ 24 + unat b1 * 2 ^ 16 + unat b2 * 2 ^ 8 + unat b3"
  have bound: "?N < 2 ^ 31"
    using b0 b1 b2 b3 by simp
  have s1: "unat (?C + ?D) = unat ?C + unat ?D"
    using b2 b3 by (intro unat_add_lem [THEN iffD1]) (simp only: uc ud, simp)
  have s2: "unat (?B + (?C + ?D)) = unat ?B + unat (?C + ?D)"
    using b1 b2 b3 by (intro unat_add_lem [THEN iffD1]) (simp only: s1 ub uc ud, simp)
  have s3: "unat (?A + (?B + (?C + ?D))) = unat ?A + unat (?B + (?C + ?D))"
    using b0 b1 b2 b3 by (intro unat_add_lem [THEN iffD1]) (simp only: s1 s2 ua ub uc ud, simp)
  have "?A OR (?B OR (?C OR ?D)) = ?A + (?B OR (?C OR ?D))"
    by (rule abcd)
  also have "\<dots> = ?A + (?B + (?C OR ?D))"
    by (simp only: bcd)
  also have "\<dots> = ?A + (?B + (?C + ?D))"
    by (simp only: cd)
  finally have "unat (?A OR (?B OR (?C OR ?D))) = unat (?A + (?B + (?C + ?D)))"
    by (rule arg_cong)
  also have "\<dots> = ?N"
    by (simp only: s1 s2 s3 ua ub uc ud)
  finally have un: "unat (?A OR (?B OR (?C OR ?D))) = ?N" .
  have "unat (?A OR (?B OR (?C OR ?D))) < 2 ^ 31"
    using bound by (simp only: un)
  then have "sint (?A OR (?B OR (?C OR ?D))) = int (unat (?A OR (?B OR (?C OR ?D))))"
    by (rule sint_eq_unat)
  then have "sint (?A OR (?B OR (?C OR ?D))) = int ?N"
    by (simp only: un)
  moreover have "?N = unat (b0 AND mask 7) * 256 ^ 3 + unat b1 * 256 ^ 2 + unat b2 * 256 + unat b3"
    by simp
  ultimately show ?thesis
    by (simp only: numeral_masks)
qed

lemma truncationOffset_spec:
  assumes "hmacResult \<noteq> []"
  shows "truncationOffset hmacResult = int (unat (last hmacResult AND 0x0F))"
proof -
  let ?w = "(ucast (last hmacResult) :: 32 word) AND mask 4"
  have idx: "nat (int (length hmacResult) - 1) = length hmacResult - 1"
    by arith
  have get: "Buffer_get hmacResult (int (length hmacResult) - 1) = Some (last hmacResult)"
    using assms by (simp add: Buffer_get_def last_conv_nth idx)
  have u: "unat ?w = unat (last hmacResult AND mask 4)"
    by (rule unat_ucast_mask)
  have "unat (last hmacResult AND mask 4) < 2 ^ 4"
    by (rule unat_byte_mask_less)
  then have "unat ?w < 2 ^ 31"
    by (simp only: u) simp
  then have "sint ?w = int (unat ?w)"
    by (rule sint_eq_unat)
  then have "sint ?w = int (unat (last hmacResult AND mask 4))"
    by (simp only: u)
  then show ?thesis
    by (simp only: truncationOffset_def get ToInt32_read.simps numeral_masks)
qed

lemma Buffer_get_four:
  assumes "n + 3 < length h"
  shows "Buffer_get h (int n) = Some (h ! n)
       \<and> Buffer_get h (int n + 1) = Some (h ! (n + 1))
       \<and> Buffer_get h (int n + 2) = Some (h ! (n + 2))
       \<and> Buffer_get h (int n + 3) = Some (h ! (n + 3))"
  using assms by (simp add: Buffer_get_def nat_add_distrib)

text \<open>
  On a digest of at least 20 bytes the code's truncation is the specification's dynamic
  truncation.
\<close>

lemma truncatedCode_spec:
  assumes "20 \<le> length hmacResult"
  shows "truncatedCode hmacResult = int (dynamicTruncation hmacResult)"
proof -
  let ?o = "unat (last hmacResult AND 0x0F)"
  have ne: "hmacResult \<noteq> []"
    using assms by auto
  have off: "truncationOffset hmacResult = int ?o"
    using ne by (rule truncationOffset_spec)
  have "?o < 2 ^ 4"
    by (simp only: numeral_masks unat_byte_mask_less)
  then have small: "?o + 3 < length hmacResult"
    using assms by simp
  note reads = Buffer_get_four [OF small]
  have g0: "Buffer_get hmacResult (int ?o) = Some (hmacResult ! ?o)"
    and g1: "Buffer_get hmacResult (int ?o + 1) = Some (hmacResult ! (?o + 1))"
    and g2: "Buffer_get hmacResult (int ?o + 2) = Some (hmacResult ! (?o + 2))"
    and g3: "Buffer_get hmacResult (int ?o + 3) = Some (hmacResult ! (?o + 3))"
    using reads by blast+
  show ?thesis
    by (simp only: truncatedCode_def Let_def off g0 g1 g2 g3 ToInt32_read.simps
        four_bytes_value dynamicTruncation_def)
qed

lemma Buffer_get_Some: "0 \<le> i \<Longrightarrow> i < int (length h) \<Longrightarrow> Buffer_get h i = Some (h ! nat i)"
  by (simp add: Buffer_get_def)

text \<open>
  C10. For a digest of at least 20 bytes the offset \<^verbatim>\<open>hmacResult[hmacResult.length - 1] & 0xf\<close>
  is at most 15, the read of the last byte and the four reads at \<open>offset\<close> to \<open>offset + 3\<close>
  are inside the digest (none of them yields \<^verbatim>\<open>undefined\<close>), and the truncated value is a
  non-negative integer below \<open>2^31\<close>.
\<close>

theorem dynamic_truncation_in_bounds:
  assumes "20 \<le> length hmacResult"
  shows "truncationOffset hmacResult \<le> 15
       \<and> Buffer_get hmacResult (int (length hmacResult) - 1) \<noteq> None
       \<and> Buffer_get hmacResult (truncationOffset hmacResult) \<noteq> None
       \<and> Buffer_get hmacResult (truncationOffset hmacResult + 1) \<noteq> None
       \<and> Buffer_get hmacResult (truncationOffset hmacResult + 2) \<noteq> None
       \<and> Buffer_get hmacResult (truncationOffset hmacResult + 3) \<noteq> None
       \<and> 0 \<le> truncatedCode hmacResult \<and> truncatedCode hmacResult < 2 ^ 31"
  using assms truncationOffset_bounds [of hmacResult]
    truncatedCode_nonneg [of hmacResult] truncatedCode_less [of hmacResult]
  by (auto simp add: Buffer_get_def)

theorem dynamic_truncation_in_bounds_witness:
  "20 \<le> length rfc4226Digest
   \<and> truncationOffset rfc4226Digest = 10
   \<and> Buffer_get rfc4226Digest (truncationOffset rfc4226Digest + 3) \<noteq> None
   \<and> 0 \<le> truncatedCode rfc4226Digest
   \<and> truncatedCode rfc4226Digest = 1357872921"
proof -
  have h: "20 \<le> length rfc4226Digest"
    by (simp add: rfc4226Digest_def)
  have "truncationOffset rfc4226Digest = 10"
    by (simp add: truncationOffset_def Buffer_get_def rfc4226Digest_def)
  moreover have "truncatedCode rfc4226Digest = 1357872921"
    by (simp add: truncatedCode_def truncationOffset_def Buffer_get_def rfc4226Digest_def)
  ultimately show ?thesis
    using h dynamic_truncation_in_bounds [OF h] by simp
qed

section \<open>The code string\<close>

lemma unat_digit_unit: "d < 10 \<Longrightarrow> unat (digit_unit d) = 48 + d"
  unfolding digit_unit_def by (subst unat_of_nat) simp

lemma isDecimalDigit_digit_unit: "d < 10 \<Longrightarrow> isDecimalDigit (digit_unit d)"
  by (simp add: isDecimalDigit_def unat_digit_unit)

lemma digits_nat_toString: "list_all isDecimalDigit (nat_toString n)"
proof (induction n rule: nat_toString.induct)
  case (1 n)
  show ?case
  proof (cases "n < 10")
    case True
    then show ?thesis
      by (subst nat_toString.simps) (simp add: isDecimalDigit_digit_unit)
  next
    case False
    then show ?thesis
      using "1.IH" by (subst nat_toString.simps) (simp add: isDecimalDigit_digit_unit)
  qed
qed

lemma length_nat_toString: "n < 10 ^ k \<Longrightarrow> 0 < k \<Longrightarrow> length (nat_toString n) \<le> k"
proof (induction n arbitrary: k rule: nat_toString.induct)
  case (1 n)
  show ?case
  proof (cases "n < 10")
    case True
    then show ?thesis
      using "1.prems" by (subst nat_toString.simps) simp
  next
    case False
    obtain j where k: "k = Suc j" using "1.prems" by (cases k) auto
    have "0 < j" using False "1.prems" k by (cases j) auto
    moreover have "n div 10 < 10 ^ j" using "1.prems" k by (simp add: less_mult_imp_div_less mult.commute)
    ultimately have "length (nat_toString (n div 10)) \<le> j"
      using "1.IH" False by simp
    then show ?thesis
      using False k by (subst nat_toString.simps) simp
  qed
qed

lemma decimalValue_snoc: "decimalValue (s @ [u]) = 10 * decimalValue s + (unat u - 48)"
  by (simp add: decimalValue_def)

lemma decimalValue_nat_toString: "decimalValue (nat_toString n) = n"
proof (induction n rule: nat_toString.induct)
  case (1 n)
  show ?case
  proof (cases "n < 10")
    case True
    then show ?thesis
      by (subst nat_toString.simps) (simp add: decimalValue_def unat_digit_unit)
  next
    case False
    then show ?thesis
      using "1.IH" by (subst nat_toString.simps) (simp add: decimalValue_snoc unat_digit_unit)
  qed
qed

lemma decimalValue_zeros: "decimalValue (replicate k 48 @ s) = decimalValue s"
  by (induction k) (simp_all add: decimalValue_def)


lemma js_rem_nonneg: "0 \<le> a \<Longrightarrow> js_rem a (10 ^ k) = a mod 10 ^ k"
  by (simp add: js_rem_def)

lemma number_toString_nonneg: "0 \<le> n \<Longrightarrow> number_toString n = nat_toString (nat n)"
  by (simp add: number_toString_def)

lemma generateHotp_eq:
  "generateHotp ext key counter =
     padStart0 (nat_toString (truncatedModulo ext key counter)) (totp_length (AUTH_APP_PARAMS ext))"
proof -
  let ?h = "createHmac ext (totp_hash_algorithm (AUTH_APP_PARAMS ext)) key (counterBuffer counter)"
  let ?k = "totp_length (AUTH_APP_PARAMS ext)"
  have nn: "0 \<le> truncatedCode ?h" by (rule truncatedCode_nonneg)
  then have "js_rem (truncatedCode ?h) (10 ^ ?k) = truncatedCode ?h mod 10 ^ ?k"
    by (rule js_rem_nonneg)
  moreover have "0 \<le> truncatedCode ?h mod 10 ^ ?k" by simp
  moreover have "nat (truncatedCode ?h mod 10 ^ ?k) = nat (truncatedCode ?h) mod 10 ^ ?k"
    using nn by (simp add: nat_mod_distrib nat_power_eq)
  ultimately show ?thesis
    by (simp add: generateHotp_def Let_def truncatedModulo_def number_toString_nonneg)
qed

lemma nat_toString_nonempty: "nat_toString n \<noteq> []"
  by (subst nat_toString.simps) simp

lemma nat_toString_0: "nat_toString 0 = [48]"
  by (subst nat_toString.simps) (simp add: digit_unit_def)

lemma generateHotp_padded:
  "generateHotp ext key counter =
     replicate (totp_length (AUTH_APP_PARAMS ext) - length (nat_toString (truncatedModulo ext key counter))) 48
       @ nat_toString (truncatedModulo ext key counter)"
  by (simp add: generateHotp_eq padStart0_def)

lemma isDecimalDigit_48: "isDecimalDigit 48"
  by (simp add: isDecimalDigit_def)

lemma generateHotp_digits: "list_all isDecimalDigit (generateHotp ext key counter)"
  using digits_nat_toString [of "truncatedModulo ext key counter"]
  by (auto simp add: generateHotp_padded list_all_iff isDecimalDigit_48)

lemma generateHotp_length:
  "length (generateHotp ext key counter) = max 1 (totp_length (AUTH_APP_PARAMS ext))"
proof (cases "totp_length (AUTH_APP_PARAMS ext)")
  case 0
  then have "truncatedModulo ext key counter = 0"
    by (simp add: truncatedModulo_def)
  then show ?thesis
    using 0 by (simp add: generateHotp_eq padStart0_def nat_toString_0)
next
  case (Suc j)
  have "truncatedModulo ext key counter < 10 ^ totp_length (AUTH_APP_PARAMS ext)"
    by (simp add: truncatedModulo_def)
  then have "length (nat_toString (truncatedModulo ext key counter)) \<le> totp_length (AUTH_APP_PARAMS ext)"
    using Suc by (intro length_nat_toString) simp_all
  then show ?thesis
    using Suc by (simp add: generateHotp_padded)
qed

text \<open>The number the returned string denotes is the one the code computed.\<close>

lemma decimalValue_generateHotp:
  "decimalValue (generateHotp ext key counter) = truncatedModulo ext key counter"
  by (subst generateHotp_padded) (simp only: decimalValue_zeros decimalValue_nat_toString)

text \<open>
  With a positive code length the string returned by \<^verbatim>\<open>generateHotp\<close> has exactly
  \<^verbatim>\<open>totp_length\<close> characters, all of them decimal digits, and it is the decimal numeral of
  the number the code computed with \<^verbatim>\<open>'0'\<close> put in front up to the code length.
\<close>

lemma generateHotp_format:
  assumes "0 < totp_length (AUTH_APP_PARAMS ext)"
  shows "length (generateHotp ext secretKeyBuffer counter) = totp_length (AUTH_APP_PARAMS ext)
       \<and> list_all isDecimalDigit (generateHotp ext secretKeyBuffer counter)
       \<and> generateHotp ext secretKeyBuffer counter
           = replicate (totp_length (AUTH_APP_PARAMS ext)
                          - length (nat_toString (truncatedModulo ext secretKeyBuffer counter))) 48
               @ nat_toString (truncatedModulo ext secretKeyBuffer counter)"
proof -
  have "length (generateHotp ext secretKeyBuffer counter) = totp_length (AUTH_APP_PARAMS ext)"
    using assms by (simp add: generateHotp_length)
  then show ?thesis
    using generateHotp_digits [of ext secretKeyBuffer counter]
      generateHotp_padded [of ext secretKeyBuffer counter]
    by simp
qed

text \<open>
  C8. Two calls of \<^verbatim>\<open>generateHotp\<close> with the same secret and counter under the same
  configuration and HMAC primitive return the same string, whatever else differs between
  the two calls (the clock reading, the decoders).
\<close>

theorem generateHotp_deterministic:
  assumes "AUTH_APP_PARAMS ext1 = AUTH_APP_PARAMS ext2"
    and "createHmac ext1 = createHmac ext2"
  shows "generateHotp ext1 secretKeyBuffer counter = generateHotp ext2 secretKeyBuffer counter"
  using assms by (simp add: generateHotp_def)

theorem generateHotp_deterministic_witness:
  "AUTH_APP_PARAMS exampleExternals = AUTH_APP_PARAMS (exampleExternals\<lparr>Date_now := 1700000030000\<rparr>)
   \<and> createHmac exampleExternals = createHmac (exampleExternals\<lparr>Date_now := 1700000030000\<rparr>)
   \<and> generateHotp exampleExternals exampleKey 56666665
       = generateHotp (exampleExternals\<lparr>Date_now := 1700000030000\<rparr>) exampleKey 56666665"
proof -
  have h1: "AUTH_APP_PARAMS exampleExternals
      = AUTH_APP_PARAMS (exampleExternals\<lparr>Date_now := 1700000030000\<rparr>)"
    by simp
  have h2: "createHmac exampleExternals = createHmac (exampleExternals\<lparr>Date_now := 1700000030000\<rparr>)"
    by simp
  show ?thesis
    using h1 h2 generateHotp_deterministic [OF h1 h2, of exampleKey 56666665] by simp
qed

section \<open>The counter message\<close>

lemma replicate_8: "replicate 8 x = [x, x, x, x, x, x, x, x]"
  by (simp add: eval_nat_numeral)

lemma list_update_8:
  "[a0, a1, a2, a3, a4, a5, a6, a7 :: byte][7 := b7, 6 := b6, 5 := b5, 4 := b4, 3 := b3, 2 := b2, 1 := b1, 0 := b0]
     = [b0, b1, b2, b3, b4, b5, b6, b7]"
  by (simp add: eval_nat_numeral)

text \<open>The eight iterations of the loop, unrolled.\<close>

lemma counterBuffer_bytes:
  "counterBuffer counter =
     map (\<lambda>k. ucast (signed_drop_bit (8 * k) (ToInt32 counter) AND 0xff)) [7, 6, 5, 4, 3, 2, 1, 0]"
  by (simp add: counterBuffer_def counterLoop.simps ToInt32_def replicate_8 list_update_8)

text \<open>
  For a counter from 0 up to \<open>2^31 - 1\<close> the loop writes the big-endian form.
\<close>

lemma bit_small_int:
  fixes c :: int
  assumes "0 \<le> c" and "c < 2 ^ 31" and "31 \<le> j"
  shows "\<not> bit c j"
proof -
  have "c < 2 ^ j"
    using assms(2) power_increasing [of 31 j "2 :: int"] assms(3) by simp
  then have "take_bit j c = c"
    using assms(1) by (simp add: take_bit_int_eq_self)
  then have "bit c j = bit (take_bit j c) j"
    by simp
  then show ?thesis
    by (simp add: bit_take_bit_iff)
qed

lemma counter_byte:
  fixes c :: int
  assumes "0 \<le> c" and "c < 2 ^ 31"
  shows "(ucast (signed_drop_bit n (word_of_int c :: 32 word) AND 0xff) :: 8 word)
           = word_of_int (c div 2 ^ n mod 256)"
proof -
  have ff: "(0xff :: 32 word) = mask 8"
    by (simp add: mask_eq_exp_minus_1)
  have rhs: "c div 2 ^ n mod 256 = take_bit 8 (drop_bit n c)"
    by (simp add: take_bit_eq_mod drop_bit_eq_div)
  show ?thesis
    unfolding ff rhs
  proof (rule bit_word_eqI)
    fix i
    assume "i < LENGTH(8)"
    then have i: "i < 8" by simp
    show "bit (ucast (signed_drop_bit n (word_of_int c :: 32 word) AND mask 8) :: 8 word) i
      \<longleftrightarrow> bit (word_of_int (take_bit 8 (drop_bit n c)) :: 8 word) i"
      using i bit_small_int [OF assms]
      by (auto simp add: bit_simps)
  qed
qed

lemma counterBuffer_in_range:
  assumes "0 \<le> counter" and "counter < 2 ^ 31"
  shows "counterBuffer counter = bigEndian8 counter"
  by (simp add: counterBuffer_bytes ToInt32_def bigEndian8_def upt_rec
      counter_byte [OF assms] flip: power_mult [of "2::int" 8, simplified])

text \<open>
  C4. The claim is that the message is the big-endian form of the counter for every
  unsigned 64-bit counter. The bitwise operators of the loop work on the 32-bit conversion
  of the counter: at \<open>2^32\<close> the loop writes eight zero bytes where the big-endian form has
  a one in byte 3, and at \<open>2^31\<close> it fills the upper four bytes with \<open>0xff\<close>.
\<close>

theorem counterBuffer_not_big_endian:
  "counterBuffer 4294967296 = [0, 0, 0, 0, 0, 0, 0, 0]
   \<and> bigEndian8 4294967296 = [0, 0, 0, 1, 0, 0, 0, 0]
   \<and> counterBuffer 2147483648 = [255, 255, 255, 255, 128, 0, 0, 0]
   \<and> bigEndian8 2147483648 = [0, 0, 0, 0, 128, 0, 0, 0]"
  by (simp add: counterBuffer_bytes ToInt32_def bigEndian8_def upt_rec)

section \<open>The example instance, evaluated\<close>

lemma example_decode: "customBase32Decode exampleExternals exampleSecret = Some exampleKey"
  by (simp add: exampleExternals_def strictDecode_def base32Digit_def exampleSecret_def exampleKey_def)

lemma example_decode_malformed: "customBase32Decode exampleExternals malformedSecret = None"
  by (simp add: exampleExternals_def strictDecode_def base32Digit_def malformedSecret_def)

lemma example_counter: "currentCounter exampleExternals = 56666666"
  by (simp add: currentCounter_def exampleExternals_def)

lemma example_length: "totp_length (AUTH_APP_PARAMS exampleExternals) = 6"
  by (simp add: exampleExternals_def)

lemma upt_32:
  "[0..<32] = [0, 1, 2, 3, 4, 5, 6, 7, 8, 9, 10, 11, 12, 13, 14, 15, 16, 17, 18, 19, 20, 21, 22,
     23, 24, 25, 26, 27, 28, 29, 30, 31]"
  by (simp add: upt_rec)

lemma example_message_prev: "counterBuffer 56666665 = [0, 0, 0, 0, 3, 96, 170, 41]"
  by (simp add: counterBuffer_bytes ToInt32_def)

lemma example_digest_prev:
  "exampleDigest alg exampleKey [0, 0, 0, 0, 3, 96, 170, 41] =
     [131, 55, 235, 159, 83, 7, 187, 111, 35, 215, 139, 63, 243, 167, 91, 15, 195, 119, 43, 223,
      147, 71, 251, 175, 99, 23, 203, 127, 51, 231, 155, 79]"
  by (simp add: exampleDigest_def exampleKey_def upt_32)

lemma example_truncation_prev:
  "truncatedCode
     [131, 55, 235, 159, 83, 7, 187, 111, 35, 215, 139, 63, 243, 167, 91, 15, 195, 119, 43, 223,
      147, 71, 251, 175, 99, 23, 203, 127, 51, 231, 155, 79] = 264468267"
  by (simp add: truncatedCode_def truncationOffset_def Buffer_get_def)

lemma example_modulo_prev: "truncatedModulo exampleExternals exampleKey 56666665 = 468267"
proof -
  have "createHmac exampleExternals = exampleDigest"
    and "totp_length (AUTH_APP_PARAMS exampleExternals) = 6"
    by (simp_all add: exampleExternals_def)
  then show ?thesis
    by (simp add: truncatedModulo_def example_message_prev example_digest_prev
        example_truncation_prev)
qed

lemma example_code_prev:
  "generateHotp exampleExternals exampleKey 56666665 = [52, 54, 56, 50, 54, 55]"
  by (simp add: generateHotp_eq example_modulo_prev example_length padStart0_def
      nat_toString.simps digit_unit_def)

section \<open>The value of the code\<close>

text \<open>
  For a counter from 0 up to \<open>2^31 - 1\<close> and a digest of at least 20 bytes, the returned
  string denotes the specification's HOTP value.
\<close>

lemma generateHotp_value_in_range:
  assumes "0 \<le> counter" and "counter < 2 ^ 31"
    and "20 \<le> length (createHmac ext (totp_hash_algorithm (AUTH_APP_PARAMS ext))
                        secretKeyBuffer (bigEndian8 counter))"
  shows "decimalValue (generateHotp ext secretKeyBuffer counter)
           = hotpValue ext secretKeyBuffer counter"
proof -
  have msg: "counterBuffer counter = bigEndian8 counter"
    using assms(1, 2) by (rule counterBuffer_in_range)
  show ?thesis
    by (simp only: decimalValue_generateHotp truncatedModulo_def hotpValue_def msg
        truncatedCode_spec [OF assms(3)] nat_int)
qed












section \<open>Buffers of strings\<close>

text \<open>
  A string whose UTF-8 bytes are those of an ASCII string is that string: every code unit
  from \<open>0x80\<close> on starts its encoding with a byte from \<open>0x80\<close> on.
\<close>

lemma unat_ucast_ascii:
  fixes u :: "16 word"
  assumes "u < 0x80"
  shows "unat (ucast u :: byte) = unat u"
proof -
  have "unat u < 128"
    using assms by (simp add: word_less_nat_alt)
  then have "take_bit 8 (unat u) = unat u"
    by (intro take_bit_nat_eq_self) simp
  then show ?thesis
    by (simp add: unsigned_ucast_eq)
qed

lemma ucast_ascii_less:
  fixes u :: "16 word"
  assumes "u < 0x80"
  shows "(ucast u :: byte) < 0x80"
  using assms unat_ucast_ascii [OF assms] by (simp add: word_less_nat_alt)

lemma ucast_ascii_inj:
  fixes u v :: "16 word"
  assumes "u < 0x80" and "v < 0x80" and "(ucast u :: byte) = ucast v"
  shows "u = v"
proof -
  have "unat u = unat (ucast u :: byte)"
    using assms(1) by (simp add: unat_ucast_ascii)
  also have "\<dots> = unat (ucast v :: byte)"
    using assms(3) by simp
  also have "\<dots> = unat v"
    using assms(2) by (simp add: unat_ucast_ascii)
  finally show ?thesis
    by (simp add: word_unat_eq_iff)
qed

lemma or_high_bit:
  fixes c :: byte
  assumes "0x80 \<le> c"
  shows "0x80 \<le> c OR y"
  using assms le_word_or2 [of c y] by (rule order_trans)

lemma Buffer_from_Cons_ascii: "u < 0x80 \<Longrightarrow> Buffer_from (u # us) = ucast u # Buffer_from us"
  by (cases us) simp_all

lemma Buffer_from_Cons_high:
  assumes "\<not> u < 0x80"
  shows "\<exists>b bs. Buffer_from (u # us) = b # bs \<and> 0x80 \<le> b"
proof (cases us)
  case Nil
  then show ?thesis
    using assms by (simp add: utf8Bytes2_def utf8Bytes3_def replacementBytes_def or_high_bit)
next
  case (Cons v vs)
  then show ?thesis
    using assms
    by (simp add: utf8Bytes2_def utf8Bytes3_def utf8Bytes4_def replacementBytes_def or_high_bit)
qed

lemma Buffer_from_ascii: "list_all (\<lambda>u. u < 0x80) t \<Longrightarrow> Buffer_from t = map ucast t"
  by (induction t) (simp_all add: Buffer_from_Cons_ascii)

lemma Buffer_from_eq_ascii:
  assumes "list_all (\<lambda>u. u < 0x80) t" and "Buffer_from s = Buffer_from t"
  shows "s = t"
  using assms
proof (induction t arbitrary: s)
  case Nil
  show ?case
  proof (cases s)
    case Nil
    then show ?thesis by simp
  next
    case (Cons u us)
    then show ?thesis
      using Nil.prems(2) Buffer_from_Cons_high [of u us] Buffer_from_Cons_ascii [of u us]
      by (cases "u < 0x80") auto
  qed
next
  case (Cons a t)
  have a: "a < 0x80" and t: "list_all (\<lambda>u. u < 0x80) t"
    using Cons.prems(1) by simp_all
  have rhs: "Buffer_from (a # t) = ucast a # Buffer_from t"
    using a by (rule Buffer_from_Cons_ascii)
  show ?case
  proof (cases s)
    case Nil
    then show ?thesis
      using Cons.prems(2) rhs by simp
  next
    case (Cons u us)
    show ?thesis
    proof (cases "u < 0x80")
      case True
      then have "ucast u # Buffer_from us = ucast a # Buffer_from t"
        using Cons.prems(2) rhs \<open>s = u # us\<close> by (simp add: Buffer_from_Cons_ascii)
      then have "(ucast u :: byte) = ucast a" and "Buffer_from us = Buffer_from t"
        by simp_all
      then have "u = a" and "us = t"
        using True a t Cons.IH ucast_ascii_inj by blast+
      then show ?thesis
        using \<open>s = u # us\<close> by simp
    next
      case False
      then obtain b bs where "Buffer_from (u # us) = b # bs" and "0x80 \<le> b"
        using Buffer_from_Cons_high by blast
      then have "0x80 \<le> (ucast a :: byte)"
        using Cons.prems(2) rhs \<open>s = u # us\<close> by simp
      then show ?thesis
        using ucast_ascii_less [OF a] by simp
    qed
  qed
qed

lemma isDecimalDigit_ascii: "isDecimalDigit u \<Longrightarrow> u < 0x80"
  by (simp add: isDecimalDigit_def word_less_nat_alt)

lemma generateHotp_ascii: "list_all (\<lambda>u. u < 0x80) (generateHotp ext key counter)"
  using generateHotp_digits [of ext key counter]
  by (auto simp add: list_all_iff isDecimalDigit_ascii)

lemma length_Buffer_from_generateHotp:
  "length (Buffer_from (generateHotp ext key counter)) = max 1 (totp_length (AUTH_APP_PARAMS ext))"
  by (simp add: Buffer_from_ascii [OF generateHotp_ascii] generateHotp_length)

lemma Buffer_from_eq_generateHotp:
  "Buffer_from s = Buffer_from (generateHotp ext key counter) \<longleftrightarrow> s = generateHotp ext key counter"
  using Buffer_from_eq_ascii [OF generateHotp_ascii] by auto

section \<open>The verifier\<close>

lemma timingSafeEqual_same_length:
  "length a = length b \<Longrightarrow> timingSafeEqual a b calls = (Inr (a = b), calls @ [(a, b)])"
  by (simp add: timingSafeEqual_def)

lemma lengthAndTimingSafeEqual_eq:
  "lengthAndTimingSafeEqual a b calls =
     (Inr (a = b), if length a = length b then calls @ [(a, b)] else calls)"
  by (auto simp add: lengthAndTimingSafeEqual_def timingSafeEqual_def)

lemma generateTotp_decoded:
  "customBase32Decode ext secret = Some key \<Longrightarrow>
     generateTotp ext secret counter = Inr (generateHotp ext key counter)"
  by (simp add: generateTotp_def)

lemma generateTotp_throws:
  "customBase32Decode ext secret = None \<Longrightarrow> generateTotp ext secret counter = Inl DecodeError"
  by (simp add: generateTotp_def)

lemma verifyLoop_past_window:
  "window < errorWindow \<Longrightarrow>
     verifyLoop ext userTotpBuffer secret counter window errorWindow calls = (Inr False, calls)"
  by (subst verifyLoop.simps) simp

lemma verifyLoop_window_1:
  assumes "customBase32Decode ext secret = Some key"
  shows "verifyLoop ext ub secret counter 1 1 calls =
     (if ub = Buffer_from (generateHotp ext key (counter - 1))
      then (Inr True, calls @ [(ub, Buffer_from (generateHotp ext key (counter - 1)))])
      else (Inr (ub = Buffer_from (generateHotp ext key (counter + 1))),
            (if length ub = length (Buffer_from (generateHotp ext key (counter - 1)))
             then calls @ [(ub, Buffer_from (generateHotp ext key (counter - 1)))] else calls)
            @ (if length ub = length (Buffer_from (generateHotp ext key (counter + 1)))
               then [(ub, Buffer_from (generateHotp ext key (counter + 1)))] else [])))"
proof -
  let ?p = "Buffer_from (generateHotp ext key (counter - 1))"
  let ?n = "Buffer_from (generateHotp ext key (counter + 1))"
  show ?thesis
  proof (cases "ub = ?p")
    case True
    then show ?thesis
      by (subst verifyLoop.simps)
        (simp add: generateTotp_decoded [OF assms] lengthAndTimingSafeEqual_eq)
  next
    case False
    then show ?thesis
      by (subst verifyLoop.simps, cases "ub = ?n")
        (simp_all add: generateTotp_decoded [OF assms] lengthAndTimingSafeEqual_eq
           verifyLoop_past_window)
  qed
qed

lemma verifyTotp_throws:
  "customBase32Decode ext (dbSecretKey input) = None \<Longrightarrow>
     verifyTotp ext input calls = (Inl DecodeError, calls)"
  by (simp add: verifyTotp_def generateTotp_throws)

lemma verifyTotp_decoded:
  assumes "customBase32Decode ext (dbSecretKey input) = Some key"
  shows "verifyTotp ext input calls =
     (if length (Buffer_from (userTotp input))
           \<noteq> length (Buffer_from (generateHotp ext key (currentCounter ext)))
      then (Inr False, calls)
      else if Buffer_from (userTotp input) = Buffer_from (generateHotp ext key (currentCounter ext))
      then (Inr True,
            calls @ [(Buffer_from (userTotp input), Buffer_from (generateHotp ext key (currentCounter ext)))])
      else if Buffer_from (userTotp input) = Buffer_from (generateHotp ext key (currentCounter ext - 1))
      then (Inr True,
            calls @ [(Buffer_from (userTotp input), Buffer_from (generateHotp ext key (currentCounter ext))),
                     (Buffer_from (userTotp input), Buffer_from (generateHotp ext key (currentCounter ext - 1)))])
      else (Inr (Buffer_from (userTotp input) = Buffer_from (generateHotp ext key (currentCounter ext + 1))),
            calls @ [(Buffer_from (userTotp input), Buffer_from (generateHotp ext key (currentCounter ext))),
                     (Buffer_from (userTotp input), Buffer_from (generateHotp ext key (currentCounter ext - 1))),
                     (Buffer_from (userTotp input), Buffer_from (generateHotp ext key (currentCounter ext + 1)))]))"
proof -
  let ?ub = "Buffer_from (userTotp input)"
  let ?c = "Buffer_from (generateHotp ext key (currentCounter ext))"
  show ?thesis
  proof (cases "length ?ub = length ?c")
    case False
    then show ?thesis
      by (simp add: verifyTotp_def Let_def generateTotp_decoded [OF assms])
  next
    case True
    then have len: "length ?ub = max 1 (totp_length (AUTH_APP_PARAMS ext))"
      by (simp add: length_Buffer_from_generateHotp)
    show ?thesis
    proof (cases "?ub = ?c")
      case True
      then show ?thesis
        by (simp add: verifyTotp_def Let_def generateTotp_decoded [OF assms] timingSafeEqual_same_length)
    next
      case False
      then show ?thesis
        using len
        by (simp add: verifyTotp_def Let_def generateTotp_decoded [OF assms] timingSafeEqual_same_length
            verifyLoop_window_1 [OF assms] length_Buffer_from_generateHotp)
    qed
  qed
qed

text \<open>The outcome of \<^verbatim>\<open>verifyTotp\<close> for a secret that decodes.\<close>

lemma verifyTotp_accepts:
  assumes "customBase32Decode ext (dbSecretKey input) = Some key"
  shows "fst (verifyTotp ext input calls) =
           Inr (userTotp input = generateHotp ext key (currentCounter ext)
                \<or> userTotp input = generateHotp ext key (currentCounter ext - 1)
                \<or> userTotp input = generateHotp ext key (currentCounter ext + 1))"
proof (cases "length (Buffer_from (userTotp input))
    = length (Buffer_from (generateHotp ext key (currentCounter ext)))")
  case True
  then show ?thesis
    by (simp add: verifyTotp_decoded [OF assms] Buffer_from_eq_generateHotp)
next
  case False
  have "userTotp input \<noteq> generateHotp ext key c" for c
  proof
    assume "userTotp input = generateHotp ext key c"
    then have "length (Buffer_from (userTotp input)) = length (Buffer_from (generateHotp ext key c))"
      by simp
    then show False
      using False by (simp add: length_Buffer_from_generateHotp)
  qed
  then show ?thesis
    using False by (simp add: verifyTotp_decoded [OF assms])
qed

text \<open>
  C1. For a server secret that decodes, \<^verbatim>\<open>verifyTotp\<close> returns \<^verbatim>\<open>true\<close> exactly when the
  submitted string is the code generated for the current counter, the one before or the
  one after. So it returns \<^verbatim>\<open>true\<close> for the code of \<open>current - 1\<close> and of \<open>current + 1\<close>,
  and \<^verbatim>\<open>false\<close> for a string that is the code of \<open>current - 2\<close> or \<open>current + 2\<close> and of
  none of the three accepted counters.
\<close>

theorem verifyTotp_drift_window:
  assumes "customBase32Decode ext (dbSecretKey input) = Some key"
  shows "fst (verifyTotp ext input calls) =
           Inr (userTotp input = generateHotp ext key (currentCounter ext)
                \<or> userTotp input = generateHotp ext key (currentCounter ext - 1)
                \<or> userTotp input = generateHotp ext key (currentCounter ext + 1))
       \<and> (userTotp input = generateHotp ext key (currentCounter ext - 1)
            \<longrightarrow> fst (verifyTotp ext input calls) = Inr True)
       \<and> (userTotp input = generateHotp ext key (currentCounter ext + 1)
            \<longrightarrow> fst (verifyTotp ext input calls) = Inr True)
       \<and> ((userTotp input = generateHotp ext key (currentCounter ext - 2)
             \<or> userTotp input = generateHotp ext key (currentCounter ext + 2))
            \<and> userTotp input \<noteq> generateHotp ext key (currentCounter ext)
            \<and> userTotp input \<noteq> generateHotp ext key (currentCounter ext - 1)
            \<and> userTotp input \<noteq> generateHotp ext key (currentCounter ext + 1)
            \<longrightarrow> fst (verifyTotp ext input calls) = Inr False)"
  using verifyTotp_accepts [OF assms, of calls] by simp

lemma example_input_is_prev:
  "userTotp exampleInput = generateHotp exampleExternals exampleKey (currentCounter exampleExternals - 1)"
  by (simp add: exampleInput_def example_counter example_code_prev)

lemma example_input_decodes:
  "customBase32Decode exampleExternals (dbSecretKey exampleInput) = Some exampleKey"
  by (simp add: exampleInput_def example_decode)

theorem verifyTotp_drift_window_witness:
  "customBase32Decode exampleExternals (dbSecretKey exampleInput) = Some exampleKey
   \<and> userTotp exampleInput
       = generateHotp exampleExternals exampleKey (currentCounter exampleExternals - 1)
   \<and> fst (verifyTotp exampleExternals exampleInput []) = Inr True"
proof -
  note h = example_input_decodes
  from verifyTotp_drift_window [OF h, of "[]"] example_input_is_prev
  have "fst (verifyTotp exampleExternals exampleInput []) = Inr True"
    by blast
  with h example_input_is_prev show ?thesis
    by blast
qed

text \<open>
  C2. The claim is that a malformed secret yields \<^verbatim>\<open>false\<close> and no exception.
  \<^verbatim>\<open>verifyTotp\<close> has no \<^verbatim>\<open>try\<close>: when the decoder throws on the secret, the call ends with
  that exception and not with \<^verbatim>\<open>false\<close>.
\<close>

theorem verifyTotp_decode_error_escapes:
  assumes "customBase32Decode ext (dbSecretKey input) = None"
  shows "fst (verifyTotp ext input calls) = Inl DecodeError
       \<and> fst (verifyTotp ext input calls) \<noteq> Inr False"
  using assms by (simp add: verifyTotp_throws)

theorem verifyTotp_decode_error_escapes_witness:
  "customBase32Decode exampleExternals (dbSecretKey malformedInput) = None
   \<and> fst (verifyTotp exampleExternals malformedInput []) = Inl DecodeError"
proof -
  have h: "customBase32Decode exampleExternals (dbSecretKey malformedInput) = None"
    by (simp add: malformedInput_def example_decode_malformed)
  from verifyTotp_decode_error_escapes [OF h, of "[]"] h show ?thesis
    by blast
qed


lemma verifySecretKey_try_eq:
  "verifySecretKey_try ext userSecretKey secret calls =
     (case (Buffer_from_base64 ext userSecretKey, Buffer_from_base64 ext secret) of
        (Some a, Some b) \<Rightarrow>
          (Inr (a = b), if length a = length b then calls @ [(a, b)] else calls)
      | _ \<Rightarrow> (Inl DecodeError, calls))"
  by (auto simp add: verifySecretKey_try_def timingSafeEqual_def split: option.splits)

text \<open>
  C3, as it stands, says that \<^verbatim>\<open>verifySecretKey\<close> returns \<^verbatim>\<open>false\<close> when either string is
  malformed base64. With Node's decoder it does not: \<^verbatim>\<open>"JBSWY3DPEHPK3PXP!"\<close> is not
  well-formed, decodes to the same twelve bytes as \<^verbatim>\<open>"JBSWY3DPEHPK3PXP"\<close>, and is accepted
  against it.
\<close>

lemma example_base64_secret:
  "Buffer_from_base64 exampleExternals exampleSecret
     = Some [36, 20, 150, 99, 112, 207, 16, 115, 202, 220, 245, 207]"
  by (simp add: exampleExternals_def nodeBase64Decode_def nodeBase64Digit_def exampleSecret_def
      List.map_filter_simps)

lemma example_base64_trailing_bang:
  "Buffer_from_base64 exampleExternals trailingBangSecret
     = Some [36, 20, 150, 99, 112, 207, 16, 115, 202, 220, 245, 207]"
  by (simp add: exampleExternals_def nodeBase64Decode_def nodeBase64Digit_def
      trailingBangSecret_def List.map_filter_simps)

lemma example_trailing_bang_malformed: "\<not> wellFormedBase64 trailingBangSecret"
  by (simp add: wellFormedBase64_def trailingBangSecret_def)

theorem verifySecretKey_accepts_malformed:
  "\<not> wellFormedBase64 trailingBangSecret
   \<and> fst (verifySecretKey exampleExternals trailingBangSecret exampleSecret []) = Inr True"
  using example_trailing_bang_malformed
  by (simp add: verifySecretKey_def verifySecretKey_try_eq example_base64_secret
      example_base64_trailing_bang)

text \<open>
  C3, amended. \<^verbatim>\<open>verifySecretKey\<close> never ends with an exception. It returns \<^verbatim>\<open>true\<close>
  exactly when the decoder yields a buffer for both strings and the two buffers have the
  same length and the same byte at every index; so for two strings that decode to \<open>a\<close> and
  \<open>b\<close> the answer is whether \<open>a = b\<close>, whether or not the strings are well-formed.
\<close>

theorem verifySecretKey_decoded_bytes:
  "fst (verifySecretKey ext userSecretKey secret calls) =
     Inr (case (Buffer_from_base64 ext userSecretKey, Buffer_from_base64 ext secret) of
            (Some a, Some b) \<Rightarrow> length a = length b \<and> (\<forall>i < length a. a ! i = b ! i)
          | _ \<Rightarrow> False)
   \<and> (Buffer_from_base64 ext userSecretKey = Some a \<and> Buffer_from_base64 ext secret = Some b
        \<longrightarrow> fst (verifySecretKey ext userSecretKey secret calls) = Inr (a = b))"
  by (auto simp add: verifySecretKey_def verifySecretKey_try_eq list_eq_iff_nth_eq
      split: option.splits)

lemma example_base64_malformed_secret:
  "Buffer_from_base64 exampleExternals malformedSecret = Some [36, 20, 150, 99, 112, 207]"
  by (simp add: exampleExternals_def nodeBase64Decode_def nodeBase64Digit_def malformedSecret_def
      List.map_filter_simps)

theorem verifySecretKey_decoded_bytes_witness:
  "Buffer_from_base64 exampleExternals exampleSecret
     = Some [36, 20, 150, 99, 112, 207, 16, 115, 202, 220, 245, 207]
   \<and> Buffer_from_base64 exampleExternals malformedSecret = Some [36, 20, 150, 99, 112, 207]
   \<and> fst (verifySecretKey exampleExternals exampleSecret exampleSecret []) = Inr True
   \<and> fst (verifySecretKey exampleExternals malformedSecret exampleSecret []) = Inr False"
proof -
  note h1 = example_base64_secret and h2 = example_base64_malformed_secret
  from verifySecretKey_decoded_bytes [of exampleExternals exampleSecret exampleSecret "[]"
      "[36, 20, 150, 99, 112, 207, 16, 115, 202, 220, 245, 207]"
      "[36, 20, 150, 99, 112, 207, 16, 115, 202, 220, 245, 207]"] h1
  have "fst (verifySecretKey exampleExternals exampleSecret exampleSecret []) = Inr True"
    by simp
  moreover from verifySecretKey_decoded_bytes [of exampleExternals malformedSecret exampleSecret "[]"
      "[36, 20, 150, 99, 112, 207]"
      "[36, 20, 150, 99, 112, 207, 16, 115, 202, 220, 245, 207]"] h1 h2
  have "fst (verifySecretKey exampleExternals malformedSecret exampleSecret []) = Inr False"
    by simp
  ultimately show ?thesis
    using h1 h2 by blast
qed

lemma example_accented_buffer:
  "Buffer_from (userTotp accentedInput) = [0xC3, 0xA9, 0xC3, 0xA9, 0xC3, 0xA9]"
  by (simp add: accentedInput_def utf8Bytes2_def)

lemma example_accented_decodes:
  "customBase32Decode exampleExternals (dbSecretKey accentedInput) = Some exampleKey"
  by (simp add: accentedInput_def example_decode)

lemma example_accented_run:
  "fst (verifyTotp exampleExternals accentedInput []) = Inr False
   \<and> length (snd (verifyTotp exampleExternals accentedInput [])) = 3"
proof -
  have high: "Buffer_from (userTotp accentedInput)
      \<noteq> Buffer_from (generateHotp exampleExternals exampleKey c)" for c
  proof
    assume "Buffer_from (userTotp accentedInput)
      = Buffer_from (generateHotp exampleExternals exampleKey c)"
    then have "userTotp accentedInput = generateHotp exampleExternals exampleKey c"
      by (simp only: Buffer_from_eq_generateHotp)
    then have "list_all (\<lambda>u. u < 0x80) [0xE9, 0xE9, 0xE9 :: 16 word]"
      using generateHotp_ascii [of exampleExternals exampleKey c]
      by (simp add: accentedInput_def)
    then show False
      by simp
  qed
  have len: "length (Buffer_from (userTotp accentedInput))
      = length (Buffer_from (generateHotp exampleExternals exampleKey c))" for c
    by (simp only: example_accented_buffer length_Buffer_from_generateHotp example_length) simp
  show ?thesis
    using high len [of "currentCounter exampleExternals"]
    by (simp add: verifyTotp_decoded [OF example_accented_decodes])
qed

text \<open>
  C6, as it stands, says that a submitted code whose length differs from the generated
  code's length is rejected without a constant-time comparison. The source compares the
  lengths of the two buffers, not of the two strings: a code of three characters
  \<open>0xE9\<close> against a six-digit code has a buffer of six bytes, and \<^verbatim>\<open>verifyTotp\<close>
  invokes the primitive on it three times before it returns \<^verbatim>\<open>false\<close>.
\<close>

theorem verifyTotp_compares_shorter_string:
  "generateTotp exampleExternals (dbSecretKey accentedInput) (currentCounter exampleExternals)
     = Inr (generateHotp exampleExternals exampleKey 56666666)
   \<and> length (userTotp accentedInput) = 3
   \<and> length (generateHotp exampleExternals exampleKey 56666666) = 6
   \<and> fst (verifyTotp exampleExternals accentedInput []) = Inr False
   \<and> length (snd (verifyTotp exampleExternals accentedInput [])) = 3"
proof -
  have "generateTotp exampleExternals (dbSecretKey accentedInput) (currentCounter exampleExternals)
      = Inr (generateHotp exampleExternals exampleKey 56666666)"
    by (simp add: generateTotp_decoded [OF example_accented_decodes] example_counter)
  moreover have "length (userTotp accentedInput) = 3"
    by (simp add: accentedInput_def)
  moreover have "length (generateHotp exampleExternals exampleKey 56666666) = 6"
    by (simp add: generateHotp_length example_length)
  ultimately show ?thesis
    using example_accented_run by blast
qed

text \<open>
  C6, amended. Every invocation of \<^verbatim>\<open>timingSafeEqual\<close> made by \<^verbatim>\<open>verifyTotp\<close> and by
  \<^verbatim>\<open>verifySecretKey\<close> is on two buffers of the same length, so neither ends with the
  primitive's length error. When the buffer of the submitted code and the buffer of the
  current code differ in length, \<^verbatim>\<open>verifyTotp\<close> returns \<^verbatim>\<open>false\<close> and has invoked the
  primitive not at all. When the two strings differ in length, \<^verbatim>\<open>verifyTotp\<close> returns
  \<^verbatim>\<open>false\<close> as well.
\<close>

theorem timingSafeEqual_guarded:
  "list_all (\<lambda>(a, b). length a = length b) (snd (verifyTotp ext input []))
   \<and> list_all (\<lambda>(a, b). length a = length b) (snd (verifySecretKey ext userSecretKey secret []))
   \<and> fst (verifyTotp ext input calls) \<noteq> Inl ERR_CRYPTO_TIMING_SAFE_EQUAL_LENGTH
   \<and> fst (verifySecretKey_try ext userSecretKey secret calls) \<noteq> Inl ERR_CRYPTO_TIMING_SAFE_EQUAL_LENGTH
   \<and> (\<forall>serverTotpCurr.
        generateTotp ext (dbSecretKey input) (currentCounter ext) = Inr serverTotpCurr
        \<and> length (Buffer_from (userTotp input)) \<noteq> length (Buffer_from serverTotpCurr)
        \<longrightarrow> verifyTotp ext input calls = (Inr False, calls))
   \<and> (\<forall>serverTotpCurr.
        generateTotp ext (dbSecretKey input) (currentCounter ext) = Inr serverTotpCurr
        \<and> length (userTotp input) \<noteq> length serverTotpCurr
        \<longrightarrow> fst (verifyTotp ext input calls) = Inr False)"
proof -
  have totp: "list_all (\<lambda>(a, b). length a = length b) (snd (verifyTotp ext input []))
      \<and> fst (verifyTotp ext input calls) \<noteq> Inl ERR_CRYPTO_TIMING_SAFE_EQUAL_LENGTH"
  proof (cases "customBase32Decode ext (dbSecretKey input)")
    case None
    then show ?thesis
      by (simp add: verifyTotp_throws)
  next
    case (Some key)
    show ?thesis
    proof (cases "length (Buffer_from (userTotp input))
          = length (Buffer_from (generateHotp ext key (currentCounter ext)))")
      case False
      then show ?thesis
        by (simp add: verifyTotp_decoded [OF Some])
    next
      case True
      then have "length (Buffer_from (userTotp input)) = max 1 (totp_length (AUTH_APP_PARAMS ext))"
        by (simp add: length_Buffer_from_generateHotp)
      then show ?thesis
        by (simp add: verifyTotp_decoded [OF Some] length_Buffer_from_generateHotp)
    qed
  qed
  have raw: "list_all (\<lambda>(a, b). length a = length b) (snd (verifySecretKey ext userSecretKey secret []))
      \<and> fst (verifySecretKey_try ext userSecretKey secret calls) \<noteq> Inl ERR_CRYPTO_TIMING_SAFE_EQUAL_LENGTH"
    by (simp add: verifySecretKey_def verifySecretKey_try_eq split: option.splits)
  have early: "\<forall>serverTotpCurr.
        generateTotp ext (dbSecretKey input) (currentCounter ext) = Inr serverTotpCurr
        \<and> length (Buffer_from (userTotp input)) \<noteq> length (Buffer_from serverTotpCurr)
        \<longrightarrow> verifyTotp ext input calls = (Inr False, calls)"
    by (simp add: verifyTotp_def Let_def)
  have strings: "\<forall>serverTotpCurr.
        generateTotp ext (dbSecretKey input) (currentCounter ext) = Inr serverTotpCurr
        \<and> length (userTotp input) \<noteq> length serverTotpCurr
        \<longrightarrow> fst (verifyTotp ext input calls) = Inr False"
  proof (intro allI impI, elim conjE)
    fix serverTotpCurr
    assume gen: "generateTotp ext (dbSecretKey input) (currentCounter ext) = Inr serverTotpCurr"
      and len: "length (userTotp input) \<noteq> length serverTotpCurr"
    show "fst (verifyTotp ext input calls) = Inr False"
    proof (cases "customBase32Decode ext (dbSecretKey input)")
      case None
      then show ?thesis
        using gen by (simp add: generateTotp_throws)
    next
      case (Some key)
      then have cur: "serverTotpCurr = generateHotp ext key (currentCounter ext)"
        using gen by (simp add: generateTotp_decoded)
      have "userTotp input \<noteq> generateHotp ext key c" for c
      proof
        assume "userTotp input = generateHotp ext key c"
        then have "length (userTotp input) = length serverTotpCurr"
          by (simp add: cur generateHotp_length)
        then show False
          using len by simp
      qed
      then show ?thesis
        by (simp add: verifyTotp_accepts [OF Some])
    qed
  qed
  from totp raw early strings show ?thesis
    by blast
qed

lemma example_short_decodes:
  "generateTotp exampleExternals (dbSecretKey shortInput) (currentCounter exampleExternals)
     = Inr (generateHotp exampleExternals exampleKey 56666666)"
  by (simp add: shortInput_def generateTotp_decoded [OF example_decode] example_counter)

lemma example_short_length:
  "length (Buffer_from (userTotp shortInput))
     \<noteq> length (Buffer_from (generateHotp exampleExternals exampleKey 56666666))"
  by (simp add: shortInput_def length_Buffer_from_generateHotp example_length)

theorem timingSafeEqual_guarded_witness:
  "generateTotp exampleExternals (dbSecretKey shortInput) (currentCounter exampleExternals)
     = Inr (generateHotp exampleExternals exampleKey 56666666)
   \<and> length (Buffer_from (userTotp shortInput))
       \<noteq> length (Buffer_from (generateHotp exampleExternals exampleKey 56666666))
   \<and> verifyTotp exampleExternals shortInput [] = (Inr False, [])"
proof -
  from timingSafeEqual_guarded [of exampleExternals shortInput exampleSecret exampleSecret "[]"]
    example_short_decodes example_short_length
  have "verifyTotp exampleExternals shortInput [] = (Inr False, [])"
    by blast
  with example_short_decodes example_short_length show ?thesis
    by blast
qed

text \<open>
  C9. With a positive code length, whenever \<^verbatim>\<open>verifyTotp\<close> returns \<^verbatim>\<open>true\<close> the submitted
  string has exactly \<^verbatim>\<open>totp_length\<close> characters and all of them are decimal digits.
\<close>

theorem verifyTotp_true_only_for_digit_codes:
  assumes "fst (verifyTotp ext input calls) = Inr True"
    and "0 < totp_length (AUTH_APP_PARAMS ext)"
  shows "length (userTotp input) = totp_length (AUTH_APP_PARAMS ext)
       \<and> list_all isDecimalDigit (userTotp input)"
proof (cases "customBase32Decode ext (dbSecretKey input)")
  case None
  then show ?thesis
    using assms(1) by (simp add: verifyTotp_throws)
next
  case (Some key)
  obtain c where "userTotp input = generateHotp ext key c"
    using assms(1) verifyTotp_accepts [OF Some, of calls] by auto
  then show ?thesis
    using assms(2) generateHotp_length [of ext key c] generateHotp_digits [of ext key c]
    by simp
qed

lemma example_input_accepted: "fst (verifyTotp exampleExternals exampleInput []) = Inr True"
  using verifyTotp_accepts [OF example_input_decodes, of "[]"] example_input_is_prev by simp

theorem verifyTotp_true_only_for_digit_codes_witness:
  "fst (verifyTotp exampleExternals exampleInput []) = Inr True
   \<and> 0 < totp_length (AUTH_APP_PARAMS exampleExternals)
   \<and> length (userTotp exampleInput) = totp_length (AUTH_APP_PARAMS exampleExternals)
   \<and> list_all isDecimalDigit (userTotp exampleInput)"
proof -
  have h: "0 < totp_length (AUTH_APP_PARAMS exampleExternals)"
    by (simp add: example_length)
  from verifyTotp_true_only_for_digit_codes [OF example_input_accepted h]
    example_input_accepted h show ?thesis
    by blast
qed

end
